theory Spec2Isabelle
  imports Main "HOL-Library.Log_Nat"
begin

section \<open>Numbers of the source language\<close>

text \<open>
  The tracker is a TypeScript/React component; every score, minute count and load is a
  \<^verbatim>\<open>number\<close>, that is an IEEE 754 binary64 value. The model keeps the four kinds of value
  apart: the not-a-number value, the two infinities and the finite values, a finite value
  being the rational it denotes. The two zeros are identified: the program never divides by
  a score and never inspects the sign of a zero, and \<^verbatim>\<open>JSON.stringify\<close> prints both as 0.
\<close>

datatype number = NaN | NegInf | Fin rat | PosInf

text \<open>\<open>ilog2 x\<close> is the binary exponent of a positive rational: \<open>2 ^ ilog2 x \<le> x < 2 ^ (ilog2 x + 1)\<close>.\<close>

definition ilog2 :: "rat \<Rightarrow> int" where
  "ilog2 x = (if 1 \<le> x then bitlen \<lfloor>x\<rfloor> - 1 else - bitlen (\<lceil>1 / x\<rceil> - 1))"

text \<open>Rounding to the nearest integer, a tie going to the even neighbour.\<close>

definition round_even :: "rat \<Rightarrow> int" where
  "round_even x = (let f = \<lfloor>x\<rfloor>; d = x - of_int f in
     if d < 1 / 2 then f else if 1 / 2 < d then f + 1 else if even f then f else f + 1)"

text \<open>
  The spacing of the binary64 values around \<open>x\<close>: 53 significant bits, and the exponent
  never below \<open>-1022\<close> (below it the values are subnormal, spaced \<open>2 ^ -1074\<close> apart).
\<close>

definition quantum :: "rat \<Rightarrow> rat" where
  "quantum x = 2 powi (max (ilog2 \<bar>x\<bar>) (- 1022) - 52)"

text \<open>
  \<open>fl\<close> is the rounding every arithmetic operation ends with (round to nearest, ties to
  even); a result whose rounded magnitude reaches \<open>2 ^ 1024\<close> is an infinity.
\<close>

definition fl :: "rat \<Rightarrow> number" where
  "fl x = (if x = 0 then Fin 0 else
     let q = quantum x; r = of_int (round_even (x / q)) * q in
     if 2 ^ 1024 \<le> \<bar>r\<bar> then (if 0 < x then PosInf else NegInf) else Fin r)"

definition is_double :: "rat \<Rightarrow> bool" where
  "is_double x = (fl x = Fin x)"

text \<open>The operator \<^verbatim>\<open><\<close> on numbers: false as soon as an operand is NaN.\<close>

fun js_lt :: "number \<Rightarrow> number \<Rightarrow> bool" where
  "js_lt NaN b = False"
| "js_lt a NaN = False"
| "js_lt (Fin a) (Fin b) = (a < b)"
| "js_lt a NegInf = False"
| "js_lt NegInf b = True"
| "js_lt PosInf b = False"
| "js_lt a PosInf = True"

definition js_gt :: "number \<Rightarrow> number \<Rightarrow> bool" where
  "js_gt a b = js_lt b a"

text \<open>\<^verbatim>\<open>Math.max\<close> and \<^verbatim>\<open>Math.min\<close> of two numbers: NaN if either is.\<close>

fun js_max :: "number \<Rightarrow> number \<Rightarrow> number" where
  "js_max NaN b = NaN"
| "js_max a NaN = NaN"
| "js_max a b = (if js_lt a b then b else a)"

fun js_min :: "number \<Rightarrow> number \<Rightarrow> number" where
  "js_min NaN b = NaN"
| "js_min a NaN = NaN"
| "js_min a b = (if js_lt b a then b else a)"

fun js_add :: "number \<Rightarrow> number \<Rightarrow> number" where
  "js_add NaN b = NaN"
| "js_add a NaN = NaN"
| "js_add (Fin a) (Fin b) = fl (a + b)"
| "js_add PosInf NegInf = NaN"
| "js_add NegInf PosInf = NaN"
| "js_add PosInf b = PosInf"
| "js_add NegInf b = NegInf"
| "js_add a PosInf = PosInf"
| "js_add a NegInf = NegInf"

fun js_sub :: "number \<Rightarrow> number \<Rightarrow> number" where
  "js_sub NaN b = NaN"
| "js_sub a NaN = NaN"
| "js_sub (Fin a) (Fin b) = fl (a - b)"
| "js_sub PosInf PosInf = NaN"
| "js_sub NegInf NegInf = NaN"
| "js_sub PosInf b = PosInf"
| "js_sub NegInf b = NegInf"
| "js_sub a PosInf = NegInf"
| "js_sub a NegInf = PosInf"

text \<open>The sign of a number that is not NaN, for the products with an infinity.\<close>

fun sgn_num :: "number \<Rightarrow> int" where
  "sgn_num (Fin a) = (if a < 0 then - 1 else if a = 0 then 0 else 1)"
| "sgn_num PosInf = 1"
| "sgn_num NegInf = - 1"
| "sgn_num NaN = 0"

fun js_mul :: "number \<Rightarrow> number \<Rightarrow> number" where
  "js_mul NaN b = NaN"
| "js_mul a NaN = NaN"
| "js_mul (Fin a) (Fin b) = fl (a * b)"
| "js_mul a b = (let s = sgn_num a * sgn_num b in
     if s = 0 then NaN else if 0 < s then PosInf else NegInf)"

text \<open>
  \<^verbatim>\<open>Math.round\<close>: the nearest integer, a tie going towards \<open>+\<infinity>\<close>. The result is exact: a
  binary64 value of magnitude \<open>2 ^ 52\<close> or more is an integer already.
\<close>

fun js_round :: "number \<Rightarrow> number" where
  "js_round (Fin a) = Fin (of_int \<lfloor>a + 1 / 2\<rfloor>)"
| "js_round a = a"

section \<open>Types and constants of the tracker\<close>

datatype MuscleKey =
  Chest | Back | Shoulders | Biceps | Triceps | Quads | Hamstrings | Glutes | Calves
  | Core | Cardio

text \<open>
  Identifiers and dates are only stored and compared. The notes are trimmed, which depends
  on the characters: they are kept as the sequence of UTF-16 code units a string of the
  source language is.
\<close>

record Session =
  id' :: string
  date :: string
  muscle :: MuscleKey
  minutes :: number
  load :: number
  notes' :: "nat list option"

text \<open>
  \<^verbatim>\<open>type FatigueMap = Record<MuscleKey, number>\<close> is an object at run time: a finite map
  from keys to numbers, which the type does not force to hold every key.
\<close>

type_synonym FatigueMap = "MuscleKey \<rightharpoonup> number"

text \<open>The keys of \<^verbatim>\<open>MUSCLES\<close>, in the order of the source (the labels are display text).\<close>

definition MUSCLES :: "MuscleKey list" where
  "MUSCLES = [Chest, Back, Shoulders, Biceps, Triceps, Quads, Hamstrings, Glutes, Calves,
     Core, Cardio]"

text \<open>
  The model parameters. 18 and 4 are binary64 values; 0.7 and 0.1 are not, and the
  literals denote the nearest ones.
\<close>

definition DECAY_PER_DAY :: number where
  "DECAY_PER_DAY = Fin 18"

definition LOAD_FACTOR :: number where
  "LOAD_FACTOR = fl (7 / 10)"

definition SESSION_BASE :: number where
  "SESSION_BASE = Fin 4"

definition SPILL_FACTOR :: number where
  "SPILL_FACTOR = fl (1 / 10)"

section \<open>Fatigue state\<close>

definition initFatigue :: FatigueMap where
  "initFatigue = foldl (\<lambda>acc m. acc(m \<mapsto> Fin 0)) Map.empty MUSCLES"

text \<open>
  Reading a property for arithmetic: a missing key reads \<^verbatim>\<open>undefined\<close>, which arithmetic
  converts to NaN.
\<close>

definition rd :: "FatigueMap \<Rightarrow> MuscleKey \<Rightarrow> number" where
  "rd f k = (case f k of None \<Rightarrow> NaN | Some v \<Rightarrow> v)"

text \<open>
  The function the decay effect hands to \<^verbatim>\<open>setFatigue\<close>: \<^verbatim>\<open>next = {...prev}\<close>, then one
  write per key of \<^verbatim>\<open>MUSCLES\<close>.
\<close>

definition decayUpdate :: "number \<Rightarrow> FatigueMap \<Rightarrow> FatigueMap" where
  "decayUpdate days prev =
     foldl (\<lambda>next m. next(m \<mapsto> js_max (Fin 0) (js_sub (rd prev m) (js_mul DECAY_PER_DAY days))))
       prev MUSCLES"

text \<open>\<^verbatim>\<open>if (days > 0) setFatigue(...)\<close>: without elapsed days the state is left alone.\<close>

definition decay :: "number \<Rightarrow> FatigueMap \<Rightarrow> FatigueMap" where
  "decay days f = (if js_gt days (Fin 0) then decayUpdate days f else f)"

text \<open>The table \<^verbatim>\<open>neighbors\<close> of \<^verbatim>\<open>addSession\<close>, a partial record.\<close>

fun neighbors :: "MuscleKey \<Rightarrow> MuscleKey list option" where
  "neighbors Chest = Some [Triceps, Shoulders]"
| "neighbors Back = Some [Biceps, Shoulders]"
| "neighbors Shoulders = Some [Chest, Back]"
| "neighbors Biceps = Some [Back]"
| "neighbors Triceps = Some [Chest]"
| "neighbors Quads = Some [Glutes, Hamstrings]"
| "neighbors Hamstrings = Some [Glutes, Quads]"
| "neighbors Glutes = Some [Quads, Hamstrings]"
| "neighbors Calves = Some [Quads]"
| "neighbors Core = Some [Back, Chest]"
| "neighbors Cardio = Some [Calves, Quads]"

text \<open>\<^verbatim>\<open>neighbors[session.muscle] || []\<close>\<close>

definition synergists :: "MuscleKey \<Rightarrow> MuscleKey list" where
  "synergists m = (case neighbors m of None \<Rightarrow> [] | Some ns \<Rightarrow> ns)"

text \<open>
  The function \<^verbatim>\<open>addSession\<close> hands to \<^verbatim>\<open>setFatigue\<close>: the target first, then each
  neighbour in turn, each write reading the map as the writes before it left it.
\<close>

definition applySession :: "Session \<Rightarrow> FatigueMap \<Rightarrow> FatigueMap" where
  "applySession s prev =
     (let next = prev;
          delta = js_add SESSION_BASE (js_mul (js_mul LOAD_FACTOR (load s)) (minutes s));
          next = next(muscle s \<mapsto> js_min (Fin 100) (js_add (rd next (muscle s)) delta));
          spill = js_round (js_mul delta SPILL_FACTOR)
      in foldl (\<lambda>next n. next(n \<mapsto> js_min (Fin 100) (js_add (rd next n) spill)))
           next (synergists (muscle s)))"

text \<open>The two local constants of that function, \<^verbatim>\<open>delta\<close> and \<^verbatim>\<open>spill\<close>, by name.\<close>

definition session_delta :: "Session \<Rightarrow> number" where
  "session_delta s = js_add SESSION_BASE (js_mul (js_mul LOAD_FACTOR (load s)) (minutes s))"

definition session_spill :: "Session \<Rightarrow> number" where
  "session_spill s = js_round (js_mul (session_delta s) SPILL_FACTOR)"

section \<open>The component\<close>

text \<open>The state variables of \<^verbatim>\<open>App\<close>; the last four are the fields of the form.\<close>

record AppState =
  fatigue :: FatigueMap
  history :: "Session list"
  lastOpenISO :: "string option"
  muscle_in :: MuscleKey
  minutes_in :: number
  load_in :: number
  notes_in :: "nat list"

definition initialState :: AppState where
  "initialState =
     \<lparr> fatigue = initFatigue, history = [], lastOpenISO = None, muscle_in = Chest,
       minutes_in = Fin 45, load_in = Fin 3, notes_in = [] \<rparr>"

text \<open>
  The effect that runs when the component mounts. \<open>nowISO\<close> is the clock reading and
  \<open>days\<close> the value of \<^verbatim>\<open>Math.floor((now - then) / 86400000)\<close>, both supplied by the caller.
  The test \<^verbatim>\<open>!lastOpenISO\<close> holds of \<^verbatim>\<open>null\<close> and of the empty string.
\<close>

definition decayEffect :: "string \<Rightarrow> number \<Rightarrow> AppState \<Rightarrow> AppState" where
  "decayEffect nowISO days st =
     (if lastOpenISO st = None \<or> lastOpenISO st = Some []
      then st\<lparr>lastOpenISO := Some nowISO\<rparr>
      else st\<lparr>fatigue := decay days (fatigue st), lastOpenISO := Some nowISO\<rparr>)"

text \<open>
  \<^verbatim>\<open>String.prototype.trim\<close> removes white space and line terminators from both ends: the
  code units U+0009 to U+000D, U+0020, U+00A0, U+1680, U+2000 to U+200A, U+2028, U+2029,
  U+202F, U+205F, U+3000 and U+FEFF.
\<close>

definition is_space :: "nat \<Rightarrow> bool" where
  "is_space c = (c \<in> set [0x0009, 0x000A, 0x000B, 0x000C, 0x000D, 0x0020, 0x00A0, 0x1680,
     0x2000, 0x2001, 0x2002, 0x2003, 0x2004, 0x2005, 0x2006, 0x2007, 0x2008, 0x2009, 0x200A,
     0x2028, 0x2029, 0x202F, 0x205F, 0x3000, 0xFEFF])"

definition trim :: "nat list \<Rightarrow> nat list" where
  "trim s = rev (dropWhile is_space (rev (dropWhile is_space s)))"

text \<open>The session \<^verbatim>\<open>addSession\<close> builds from the form; \<open>uid\<close> and \<open>now\<close> come from outside.\<close>

definition mkSession :: "string \<Rightarrow> string \<Rightarrow> AppState \<Rightarrow> Session" where
  "mkSession uid now st =
     \<lparr> id' = uid, date = now, muscle = muscle_in st,
       minutes = js_max (Fin 1) (js_round (minutes_in st)),
       load = js_min (Fin 5) (js_max (Fin 1) (js_round (load_in st))),
       notes' = (let t = trim (notes_in st) in if t = [] then None else Some t) \<rparr>"

definition addSession :: "string \<Rightarrow> string \<Rightarrow> AppState \<Rightarrow> AppState" where
  "addSession uid now st =
     (let session = mkSession uid now st in
      st\<lparr>fatigue := applySession session (fatigue st),
         history := session # history st,
         notes_in := []\<rparr>)"

definition resetAll :: "bool \<Rightarrow> AppState \<Rightarrow> AppState" where
  "resetAll confirmed st =
     (if \<not> confirmed then st else st\<lparr>fatigue := initFatigue, history := []\<rparr>)"

definition removeSession :: "string \<Rightarrow> AppState \<Rightarrow> AppState" where
  "removeSession i st = st\<lparr>history := filter (\<lambda>h. id' h \<noteq> i) (history st)\<rparr>"

section \<open>Properties of states, sessions and logs\<close>

text \<open>The numbers that are neither NaN nor negative.\<close>

definition nonneg :: "number \<Rightarrow> bool" where
  "nonneg v = (case v of Fin r \<Rightarrow> 0 \<le> r | PosInf \<Rightarrow> True | _ \<Rightarrow> False)"

text \<open>A score is in range when it is present and a finite number between 0 and 100.\<close>

definition score_ok :: "number option \<Rightarrow> bool" where
  "score_ok v = (case v of Some (Fin x) \<Rightarrow> 0 \<le> x \<and> x \<le> 100 | _ \<Rightarrow> False)"

definition in_range :: "FatigueMap \<Rightarrow> bool" where
  "in_range f = list_all (\<lambda>m. score_ok (f m)) MUSCLES"

text \<open>A score that is moreover a binary64 value, as every number of the program is.\<close>

definition score_double :: "number option \<Rightarrow> bool" where
  "score_double v = (case v of Some (Fin x) \<Rightarrow> is_double x | _ \<Rightarrow> False)"

text \<open>A session as the data model has it: whole minutes, at least one; a load from 1 to 5.\<close>

definition valid_session :: "Session \<Rightarrow> bool" where
  "valid_session s =
     ((case minutes s of Fin m \<Rightarrow> 1 \<le> m \<and> m = of_int \<lfloor>m\<rfloor> | _ \<Rightarrow> False) \<and>
      load s \<in> set [Fin 1, Fin 2, Fin 3, Fin 4, Fin 5])"

text \<open>
  The fatigue states reached as long as every logged session has valid fields: the initial
  state, and whatever a decay or such a session makes of a state of this kind. These are not
  all the states of the component, which also logs the session a NaN form field gives.
\<close>

inductive valid_reachable :: "FatigueMap \<Rightarrow> bool" where
  reach_init: "valid_reachable initFatigue"
| reach_decay: "valid_reachable f \<Longrightarrow> valid_reachable (decay days f)"
| reach_session:
    "valid_reachable f \<Longrightarrow> valid_session s \<Longrightarrow> valid_reachable (applySession s f)"

text \<open>Three more sessions used as examples.\<close>

abbreviation chest310 :: Session where
  "chest310 \<equiv> \<lparr> id' = ''s1'', date = ''2025-01-01T00:00:00.000Z'', muscle = Chest,
     minutes = Fin 310, load = Fin 3, notes' = None \<rparr>"

abbreviation triceps1 :: Session where
  "triceps1 \<equiv> \<lparr> id' = ''s1'', date = ''2025-01-01T00:00:00.000Z'', muscle = Triceps,
     minutes = Fin 1, load = Fin 1, notes' = None \<rparr>"

abbreviation chest10 :: Session where
  "chest10 \<equiv> \<lparr> id' = ''s2'', date = ''2025-01-02T00:00:00.000Z'', muscle = Chest,
     minutes = Fin 10, load = Fin 5, notes' = None \<rparr>"

text \<open>The session of the worked scenario: chest, 45 minutes, load 3.\<close>

abbreviation chest45 :: Session where
  "chest45 \<equiv> \<lparr> id' = ''s1'', date = ''2025-01-01T00:00:00.000Z'', muscle = Chest,
     minutes = Fin 45, load = Fin 3, notes' = None \<rparr>"

text \<open>The percentage the fatigue board shows: \<^verbatim>\<open>Math.round(fatigue[m.key])\<close>.\<close>

definition pct :: "FatigueMap \<Rightarrow> MuscleKey \<Rightarrow> number" where
  "pct f m = js_round (rd f m)"

section \<open>Rounding: the binary exponent\<close>

lemma two_powi_less_iff: "(2::rat) powi a < 2 powi b \<longleftrightarrow> a < b"
proof
  assume h: "(2::rat) powi a < 2 powi b"
  show "a < b"
  proof (rule ccontr)
    assume "\<not> a < b"
    then have "b \<le> a" by simp
    then have "(2::rat) powi b \<le> 2 powi a" by (intro power_int_increasing) auto
    with h show False by simp
  qed
next
  assume "a < b"
  then show "(2::rat) powi a < 2 powi b" by (intro power_int_strict_increasing) auto
qed

lemma two_powi_le_iff: "(2::rat) powi a \<le> 2 powi b \<longleftrightarrow> a \<le> b"
  using two_powi_less_iff [of b a] by (simp add: not_less [symmetric])

lemma two_powi_add: "(2::rat) powi (a + b) = 2 powi a * 2 powi b"
  by (simp add: power_int_add)

lemma two_powi_diff: "(2::rat) powi (a - b) = 2 powi a / 2 powi b"
  by (simp add: power_int_diff)

lemma two_powi_nat: "0 \<le> a \<Longrightarrow> (2::rat) powi a = of_int (2 ^ nat a)"
  by (simp add: power_int_nonneg_exp)

lemma ilog2_bounds:
  assumes "0 < x"
  shows "2 powi ilog2 x \<le> x" and "x < 2 powi (ilog2 x + 1)"
proof -
  have "2 powi ilog2 x \<le> x \<and> x < 2 powi (ilog2 x + 1)"
  proof (cases "1 \<le> x")
    case True
    define n where "n = \<lfloor>x\<rfloor>"
    have n1: "0 < n" using True by (simp add: n_def)
    have b: "2 ^ nat (bitlen n - 1) \<le> n" "n < 2 ^ nat (bitlen n)"
      using bitlen_bounds [OF n1] by auto
    have k1: "1 \<le> bitlen n" using n1 by (simp add: bitlen_alt_def)
    have e: "ilog2 x = bitlen n - 1" using True by (simp add: ilog2_def n_def)
    have "rat_of_int (2 ^ nat (bitlen n - 1)) \<le> of_int n" using b(1) by (simp only: of_int_le_iff)
    also have "\<dots> \<le> x" by (simp add: n_def)
    finally have lo: "2 powi ilog2 x \<le> x" using k1 by (simp add: e power_int_nonneg_exp)
    have "n + 1 \<le> 2 ^ nat (bitlen n)" using b(2) by simp
    then have "rat_of_int (n + 1) \<le> of_int (2 ^ nat (bitlen n))" by (simp only: of_int_le_iff)
    moreover have "x < of_int (n + 1)" unfolding n_def by linarith
    ultimately have "x < of_int (2 ^ nat (bitlen n))" by linarith
    then have hi: "x < 2 powi (ilog2 x + 1)" using k1 by (simp add: e power_int_nonneg_exp)
    from lo hi show ?thesis by simp
  next
    case False
    define y where "y = 1 / x"
    define m where "m = \<lceil>y\<rceil> - 1"
    define k where "k = bitlen m"
    have y1: "1 < y" using False assms by (simp add: y_def)
    then have "2 \<le> \<lceil>y\<rceil>" by (simp add: le_ceiling_iff)
    have "1 < \<lceil>y\<rceil>" using y1 by (simp add: less_ceiling_iff)
    then have m1: "0 < m" by (simp add: m_def)
    have my: "of_int m < y" "y \<le> of_int m + 1"
      unfolding m_def using ceiling_correct [of y] by auto
    have b: "2 ^ nat (k - 1) \<le> m" "m < 2 ^ nat k"
      using bitlen_bounds [OF m1] by (auto simp: k_def)
    have k1: "1 \<le> k" using m1 by (simp add: bitlen_alt_def k_def)
    have e: "ilog2 x = - k" using False by (simp add: ilog2_def m_def k_def y_def)
    have "rat_of_int (2 ^ nat (k - 1)) \<le> of_int m" using b(1) by (simp only: of_int_le_iff)
    then have "(2::rat) ^ nat (k - 1) \<le> of_int m" by simp
    then have "(2::rat) ^ nat (k - 1) < y" using my(1) by linarith
    then have ylo: "2 powi (k - 1) < y" using k1 by (simp add: power_int_nonneg_exp)
    have "m + 1 \<le> 2 ^ nat k" using b(2) by simp
    then have "rat_of_int (m + 1) \<le> of_int (2 ^ nat k)" by (simp only: of_int_le_iff)
    then have "rat_of_int m + 1 \<le> 2 ^ nat k" by simp
    then have "y \<le> 2 ^ nat k" using my(2) by linarith
    then have yhi: "y \<le> 2 powi k" using k1 by (simp add: power_int_nonneg_exp)
    have xy: "1 / y = x" by (simp add: y_def)
    have ypos: "0 < y" using y1 by simp
    have p1: "(0::rat) < 2 powi k" by simp
    have p2: "(0::rat) < 2 powi (k - 1)" by simp
    have l1: "(2::rat) powi ilog2 x = 1 / 2 powi k" by (simp add: e power_int_minus_divide)
    have l2: "(2::rat) powi (ilog2 x + 1) = 1 / 2 powi (k - 1)"
      using power_int_minus_divide [of "2::rat" "k - 1"] by (simp add: e)
    have "1 / (2 powi k) \<le> 1 / y" using yhi ypos p1 by (simp add: frac_le)
    then have lo: "2 powi ilog2 x \<le> x" unfolding l1 xy .
    have "1 / y < 1 / (2 powi (k - 1))" using ylo ypos p2 by (simp add: frac_less2)
    then have hi: "x < 2 powi (ilog2 x + 1)" unfolding l2 xy .
    from lo hi show ?thesis by simp
  qed
  then show "2 powi ilog2 x \<le> x" and "x < 2 powi (ilog2 x + 1)" by auto
qed

section \<open>Rounding: signs and exactly representable values\<close>

lemma round_even_of_int: "round_even (of_int k) = k"
  by (simp add: round_even_def)

lemma round_even_floor: "\<lfloor>x\<rfloor> \<le> round_even x" "round_even x \<le> \<lfloor>x\<rfloor> + 1"
  by (simp_all add: round_even_def Let_def)

lemma round_even_ge:
  assumes "of_int k \<le> x"
  shows "k \<le> round_even x"
proof -
  have "k \<le> \<lfloor>x\<rfloor>" using assms by (simp add: le_floor_iff)
  then show ?thesis using round_even_floor(1) [of x] by linarith
qed

lemma round_even_le:
  assumes "x \<le> of_int k"
  shows "round_even x \<le> k"
proof (cases "x = of_int k")
  case True
  then show ?thesis by (simp add: round_even_of_int)
next
  case False
  with assms have "x < of_int k" by simp
  then have "\<lfloor>x\<rfloor> < k" by (simp add: floor_less_iff)
  then show ?thesis using round_even_floor(2) [of x] by simp
qed

lemma quantum_pos: "0 < quantum x"
  by (simp add: quantum_def)

lemma quantum_bound:
  assumes "x \<noteq> 0"
  shows "\<bar>x\<bar> < 2 ^ 53 * quantum x"
proof -
  define E where "E = max (ilog2 \<bar>x\<bar>) (- 1022)"
  have "\<bar>x\<bar> < 2 powi (ilog2 \<bar>x\<bar> + 1)" using assms by (intro ilog2_bounds) simp
  also have "\<dots> \<le> 2 powi (E + 1)" by (simp add: two_powi_le_iff E_def)
  also have "\<dots> = 2 powi 53 * 2 powi (E - 52)"
    using two_powi_add [of 53 "E - 52"] by (simp add: add.commute)
  finally show ?thesis by (simp add: quantum_def E_def)
qed

lemma fl_nonneg:
  assumes "0 \<le> x"
  shows "fl x = PosInf \<or> (\<exists>r. fl x = Fin r \<and> 0 \<le> r)"
proof (cases "x = 0")
  case True
  then show ?thesis by (simp add: fl_def)
next
  case False
  have "0 \<le> x / quantum x" using assms quantum_pos [of x] by simp
  then have "0 \<le> round_even (x / quantum x)" using round_even_ge [of 0] by simp
  then have "0 \<le> rat_of_int (round_even (x / quantum x)) * quantum x"
    using quantum_pos [of x] by simp
  then show ?thesis using False assms by (simp add: fl_def Let_def)
qed

lemma fl_nonpos:
  assumes "x \<le> 0"
  shows "fl x = NegInf \<or> (\<exists>r. fl x = Fin r \<and> r \<le> 0)"
proof (cases "x = 0")
  case True
  then show ?thesis by (simp add: fl_def)
next
  case False
  have "x / quantum x \<le> 0" using assms quantum_pos [of x] by (simp add: divide_le_0_iff)
  then have "round_even (x / quantum x) \<le> 0" using round_even_le [of _ 0] by simp
  then have "rat_of_int (round_even (x / quantum x)) * quantum x \<le> 0"
    using quantum_pos [of x] by (simp add: mult_le_0_iff)
  then show ?thesis using False assms by (auto simp add: fl_def Let_def)
qed

text \<open>
  A multiple of a power of two no smaller than the least spacing, with at most 53
  significant bits and below the overflow threshold, is a binary64 value.
\<close>

lemma fl_exact:
  assumes r: "r = of_int n * 2 powi c"
    and c: "- 1074 \<le> c"
    and n: "\<bar>n\<bar> \<le> 2 ^ 53"
    and fin: "\<bar>r\<bar> < 2 ^ 1024"
  shows "fl r = Fin r"
proof (cases "r = 0")
  case True
  then show ?thesis by (simp add: fl_def)
next
  case False
  define E where "E = max (ilog2 \<bar>r\<bar>) (- 1022)"
  have q: "quantum r = 2 powi (E - 52)" by (simp add: quantum_def E_def)
  have n0: "n \<noteq> 0" using False r by auto
  have "\<exists>k. r / quantum r = of_int k"
  proof (cases "E - 52 \<le> c")
    case True
    have "r / quantum r = of_int n * (2 powi c / 2 powi (E - 52))" using q by (simp add: r)
    also have "\<dots> = of_int n * 2 powi (c - (E - 52))" by (simp only: two_powi_diff)
    also have "\<dots> = of_int n * of_int (2 ^ nat (c - (E - 52)))"
      using True by (simp add: power_int_nonneg_exp)
    also have "\<dots> = of_int (n * 2 ^ nat (c - (E - 52)))" by simp
    finally show ?thesis by blast
  next
    case False
    then have lt: "c < E - 52" by simp
    with c have En: "E = ilog2 \<bar>r\<bar>" by (simp add: E_def)
    have "2 powi E \<le> \<bar>r\<bar>" unfolding En using \<open>r \<noteq> 0\<close> by (intro ilog2_bounds) simp
    also have "\<bar>r\<bar> = of_int \<bar>n\<bar> * 2 powi c" by (simp add: r abs_mult)
    also have "\<dots> \<le> 2 ^ 53 * 2 powi c"
    proof -
      have "rat_of_int \<bar>n\<bar> \<le> of_int (2 ^ 53)" using n by (simp only: of_int_le_iff)
      then show ?thesis by (simp add: mult_right_mono)
    qed
    also have "\<dots> = 2 powi (53 + c)" using two_powi_add [of 53 c] by simp
    finally have "E \<le> 53 + c" by (simp add: two_powi_le_iff)
    with lt have Ec: "E = 53 + c" by simp
    have "2 powi E \<le> rat_of_int \<bar>n\<bar> * 2 powi c"
      using \<open>2 powi E \<le> \<bar>r\<bar>\<close> by (simp add: r abs_mult)
    moreover have "(2::rat) powi E = 2 ^ 53 * 2 powi c"
      using two_powi_add [of 53 c] by (simp add: Ec)
    ultimately have "(2::rat) ^ 53 * 2 powi c \<le> of_int \<bar>n\<bar> * 2 powi c" by simp
    then have "(2::rat) ^ 53 \<le> of_int \<bar>n\<bar>" by (simp add: mult_le_cancel_right)
    then have "rat_of_int (2 ^ 53) \<le> of_int \<bar>n\<bar>" by simp
    then have "2 ^ 53 \<le> \<bar>n\<bar>" by (simp only: of_int_le_iff)
    with n have nabs: "\<bar>n\<bar> = 2 ^ 53" by simp
    have "E - 52 = c + 1" by (simp add: Ec)
    then have "quantum r = 2 powi (c + 1)" by (simp only: q)
    also have "\<dots> = 2 * 2 powi c" using two_powi_add [of c 1] by simp
    finally have "quantum r = 2 * 2 powi c" .
    then have h: "r / quantum r = of_int n / 2" by (simp add: r)
    have "n = 2 ^ 53 \<or> n = - (2 ^ 53)" using nabs by (auto simp: abs_if split: if_splits)
    then show ?thesis
    proof
      assume "n = 2 ^ 53"
      then have "r / quantum r = of_int (2 ^ 52)" unfolding h by simp
      then show ?thesis by blast
    next
      assume "n = - (2 ^ 53)"
      then have "r / quantum r = of_int (- (2 ^ 52))" unfolding h by simp
      then show ?thesis by blast
    qed
  qed
  then obtain k where k: "r / quantum r = of_int k" by blast
  have "rat_of_int k * quantum r = r" using k quantum_pos [of r] by (simp add: field_simps)
  then show ?thesis using \<open>r \<noteq> 0\<close> fin by (simp add: fl_def Let_def k round_even_of_int)
qed

section \<open>Rounding: results are representable, bounds are kept\<close>

lemma round_even_abs_le:
  assumes "\<bar>y\<bar> \<le> of_int N"
  shows "\<bar>round_even y\<bar> \<le> N"
proof -
  have "y \<le> of_int N" "of_int (- N) \<le> y" using assms by (auto simp: abs_le_iff)
  then have "round_even y \<le> N" "- N \<le> round_even y"
    using round_even_le [of y N] round_even_ge [of "- N" y] by auto
  then show ?thesis by (simp add: abs_le_iff)
qed

lemma quantum_exp: "\<exists>c. - 1074 \<le> c \<and> quantum x = 2 powi c"
proof -
  have "- 1074 \<le> max (ilog2 \<bar>x\<bar>) (- 1022) - 52" by simp
  then show ?thesis unfolding quantum_def by blast
qed

lemma round_quantum_bound:
  assumes "x \<noteq> 0"
  shows "\<bar>round_even (x / quantum x)\<bar> \<le> 2 ^ 53"
proof -
  have "\<bar>x / quantum x\<bar> = \<bar>x\<bar> / quantum x" using quantum_pos [of x] by simp
  also have "\<dots> < 2 ^ 53"
    using quantum_bound [OF assms] quantum_pos [of x] by (simp add: pos_divide_less_eq)
  finally have "\<bar>x / quantum x\<bar> \<le> rat_of_int (2 ^ 53)" by simp
  then show ?thesis by (rule round_even_abs_le)
qed

lemma fl_idem:
  assumes "fl x = Fin r"
  shows "fl r = Fin r"
proof (cases "x = 0")
  case True
  with assms have "r = 0" by (simp add: fl_def)
  then show ?thesis by (simp add: fl_def)
next
  case False
  obtain c where c: "- 1074 \<le> c" "quantum x = 2 powi c" using quantum_exp by blast
  define n where "n = round_even (x / quantum x)"
  have r: "r = of_int n * 2 powi c" and fin: "\<bar>r\<bar> < 2 ^ 1024"
    using assms False c(2) by (auto simp: fl_def Let_def n_def split: if_splits)
  have "\<bar>n\<bar> \<le> 2 ^ 53" unfolding n_def using False by (rule round_quantum_bound)
  with r c(1) fin show ?thesis by (intro fl_exact [where n = n and c = c]) auto
qed

lemma fl_int:
  assumes "\<bar>k\<bar> \<le> 2 ^ 53"
  shows "fl (of_int k) = Fin (of_int k)"
proof -
  have "\<bar>rat_of_int k\<bar> \<le> of_int (2 ^ 53)" using assms by (simp only: of_int_abs [symmetric] of_int_le_iff)
  then have "\<bar>rat_of_int k\<bar> < 2 ^ 1024" by simp
  then show ?thesis using assms by (intro fl_exact [where n = k and c = 0]) auto
qed

lemma ilog2_less:
  assumes "0 < x" "x < 2 powi a"
  shows "ilog2 x < a"
proof -
  have "2 powi ilog2 x \<le> x" using assms(1) by (rule ilog2_bounds)
  with assms(2) have "(2::rat) powi ilog2 x < 2 powi a" by simp
  then show ?thesis by (simp add: two_powi_less_iff)
qed

lemma ilog2_ge:
  assumes "2 powi a \<le> x"
  shows "a \<le> ilog2 x"
proof -
  have "0 < x" using assms zero_less_power_int [of "2::rat" a] by linarith
  then have "x < 2 powi (ilog2 x + 1)" by (rule ilog2_bounds)
  with assms have "(2::rat) powi a < 2 powi (ilog2 x + 1)" by simp
  then show ?thesis by (simp add: two_powi_less_iff)
qed

text \<open>Below \<open>2 ^ 53\<close> the spacing is at most one, so the integers are multiples of it.\<close>

lemma quantum_small:
  assumes "0 < x" "x < 2 ^ 53"
  shows "\<exists>j. quantum x * 2 ^ j = 1"
proof -
  define E where "E = max (ilog2 \<bar>x\<bar>) (- 1022)"
  have "x < 2 powi 53" using assms(2) by simp
  then have "ilog2 x < 53" using assms(1) by (intro ilog2_less)
  then have E: "E \<le> 52" using assms(1) by (simp add: E_def)
  have "quantum x * 2 ^ nat (52 - E) = 2 powi (E - 52) * 2 powi (52 - E)"
    using E by (simp add: quantum_def E_def power_int_nonneg_exp)
  also have "\<dots> = 2 powi ((E - 52) + (52 - E))" by (simp only: two_powi_add)
  also have "\<dots> = 1" by simp
  finally show ?thesis by blast
qed

lemma is_double_sub_int:
  assumes d: "is_double x" and x: "x < 2 ^ 53" and k: "0 \<le> k" "of_int k \<le> x"
  shows "is_double (x - of_int k)"
proof (cases "x = 0")
  case True
  with k have "k = 0" by simp
  with d show ?thesis by simp
next
  case False
  with k have xpos: "0 < x" by simp
  obtain c where c: "- 1074 \<le> c" "quantum x = 2 powi c" using quantum_exp by blast
  obtain j where j: "quantum x * 2 ^ j = 1" using quantum_small [OF xpos x] by blast
  define n where "n = round_even (x / quantum x)"
  have xn: "x = of_int n * quantum x"
    using d False x by (auto simp: is_double_def fl_def Let_def n_def split: if_splits)
  have nb: "\<bar>n\<bar> \<le> 2 ^ 53" unfolding n_def using False by (rule round_quantum_bound)
  define n' where "n' = n - k * 2 ^ j"
  have "of_int k = of_int k * (quantum x * 2 ^ j)" by (simp only: j mult_1_right)
  also have "\<dots> = rat_of_int (k * 2 ^ j) * quantum x" by simp
  finally have kq: "rat_of_int k = rat_of_int (k * 2 ^ j) * quantum x" .
  have "x - of_int k = of_int n * quantum x - rat_of_int (k * 2 ^ j) * quantum x"
    using xn kq by simp
  also have "\<dots> = of_int n' * quantum x" by (simp add: n'_def algebra_simps)
  finally have rq: "x - of_int k = of_int n' * quantum x" .
  then have r: "x - of_int k = of_int n' * 2 powi c" by (simp add: c(2))
  have "0 \<le> of_int n' * quantum x" using k(2) rq by simp
  then have n'0: "0 \<le> n'" using quantum_pos [of x] by (simp add: zero_le_mult_iff)
  have "0 \<le> x / quantum x" using xpos quantum_pos [of x] by simp
  then have npos: "0 \<le> n" unfolding n_def using round_even_ge [of 0] by simp
  have "n' \<le> n" using k(1) by (simp add: n'_def)
  with nb n'0 npos have n'b: "\<bar>n'\<bar> \<le> 2 ^ 53" by simp
  have "\<bar>x - of_int k\<bar> \<le> x" using k by simp
  with x have "\<bar>x - of_int k\<bar> < 2 ^ 1024" by simp
  with r c(1) n'b show ?thesis unfolding is_double_def by (intro fl_exact [where n = n' and c = c]) auto
qed

lemma fl_le_int:
  assumes xB: "x \<le> of_int B" and B: "0 \<le> B" "B < 2 ^ 53"
  shows "fl x = NegInf \<or> (\<exists>r. fl x = Fin r \<and> r \<le> of_int B)"
proof (cases "x \<le> 0")
  case True
  then show ?thesis using fl_nonpos [of x] B(1) by auto
next
  case False
  then have xpos: "0 < x" by simp
  have "rat_of_int B < of_int (2 ^ 53)" using B(2) by (simp only: of_int_less_iff)
  with xB have x53: "x < 2 ^ 53" by simp
  obtain j where j: "quantum x * 2 ^ j = 1" using quantum_small [OF xpos x53] by blast
  define n where "n = round_even (x / quantum x)"
  have Bq: "rat_of_int B = rat_of_int (B * 2 ^ j) * quantum x"
  proof -
    have "of_int B = of_int B * (quantum x * 2 ^ j)" by (simp only: j mult_1_right)
    then show ?thesis by (simp add: mult_ac)
  qed
  have "x / quantum x \<le> rat_of_int (B * 2 ^ j)"
    using xB quantum_pos [of x] by (subst (asm) Bq) (simp add: pos_divide_le_eq)
  then have "n \<le> B * 2 ^ j" unfolding n_def by (rule round_even_le)
  then have "rat_of_int n \<le> rat_of_int (B * 2 ^ j)" by (simp only: of_int_le_iff)
  then have "rat_of_int n * quantum x \<le> rat_of_int (B * 2 ^ j) * quantum x"
    using quantum_pos [of x] by (simp only: mult_le_cancel_right_pos)
  then have le: "rat_of_int n * quantum x \<le> of_int B" by (simp only: Bq [symmetric])
  have "0 \<le> x / quantum x" using xpos quantum_pos [of x] by simp
  then have "0 \<le> n" unfolding n_def using round_even_ge [of 0] by simp
  then have ge: "0 \<le> rat_of_int n * quantum x" using quantum_pos [of x] by simp
  have "rat_of_int B < 2 ^ 1024" using \<open>rat_of_int B < of_int (2 ^ 53)\<close> by simp
  with le ge have "\<bar>rat_of_int n * quantum x\<bar> < 2 ^ 1024" by simp
  then have "fl x = Fin (rat_of_int n * quantum x)"
    using xpos by (simp add: fl_def Let_def n_def)
  with le show ?thesis by simp
qed

lemma fl_ge_big:
  assumes "2 ^ 53 \<le> x"
  shows "fl x = PosInf \<or> (\<exists>r. fl x = Fin r \<and> 2 ^ 53 \<le> r)"
proof -
  have xpos: "0 < x" using assms by simp
  have "2 powi 53 \<le> x" using assms by simp
  then have E53: "53 \<le> ilog2 x" by (rule ilog2_ge)
  define E where "E = ilog2 x"
  have q: "quantum x = 2 powi (E - 52)" using E53 xpos by (simp add: quantum_def E_def)
  define n where "n = round_even (x / quantum x)"
  have "2 powi E \<le> x" unfolding E_def using xpos by (rule ilog2_bounds)
  moreover have "(2::rat) powi E = 2 ^ 52 * quantum x"
    using two_powi_add [of 52 "E - 52"] by (simp add: q)
  ultimately have "rat_of_int (2 ^ 52) \<le> x / quantum x"
    using quantum_pos [of x] by (simp add: pos_le_divide_eq)
  then have "2 ^ 52 \<le> n" unfolding n_def by (rule round_even_ge)
  then have "rat_of_int (2 ^ 52) \<le> of_int n" by (simp only: of_int_le_iff)
  then have "rat_of_int (2 ^ 52) * quantum x \<le> of_int n * quantum x"
    using quantum_pos [of x] by (simp only: mult_le_cancel_right_pos)
  then have "2 powi E \<le> of_int n * quantum x"
    using \<open>(2::rat) powi E = 2 ^ 52 * quantum x\<close> by simp
  moreover have "(2::rat) powi 53 \<le> 2 powi E" using E53 by (simp only: two_powi_le_iff E_def)
  moreover have "(2::rat) powi 53 = 2 ^ 53" by simp
  ultimately have "2 ^ 53 \<le> of_int n * quantum x" by linarith
  then show ?thesis using xpos by (simp add: fl_def Let_def n_def)
qed

section \<open>The state updates, key by key\<close>

lemma MUSCLES_all: "g \<in> set MUSCLES"
  by (cases g) (simp_all add: MUSCLES_def)

lemma foldl_const_upd:
  "foldl (\<lambda>next m. next(m \<mapsto> h m)) f xs g = (if g \<in> set xs then Some (h g) else f g)"
  by (induction xs arbitrary: f) auto

lemma initFatigue_apply: "initFatigue g = Some (Fin 0)"
  unfolding initFatigue_def using MUSCLES_all [of g] by (simp add: foldl_const_upd)

lemma decayUpdate_apply:
  "decayUpdate days prev g =
     Some (js_max (Fin 0) (js_sub (rd prev g) (js_mul DECAY_PER_DAY days)))"
  unfolding decayUpdate_def using MUSCLES_all [of g] by (simp add: foldl_const_upd)

lemma foldl_read_upd:
  "distinct ns \<Longrightarrow>
   foldl (\<lambda>next n. next(n \<mapsto> h (rd next n))) f ns g =
     (if g \<in> set ns then Some (h (rd f g)) else f g)"
proof (induction ns arbitrary: f)
  case Nil
  then show ?case by simp
next
  case (Cons a ns)
  then show ?case by (auto simp: rd_def)
qed

lemma synergists_distinct: "distinct (synergists m)"
  by (cases m) (simp_all add: synergists_def)

lemma synergists_irrefl: "m \<notin> set (synergists m)"
  by (cases m) (simp_all add: synergists_def)

lemma applySession_apply:
  "applySession s f g =
     (if g \<in> set (synergists (muscle s))
        then Some (js_min (Fin 100) (js_add (rd f g) (session_spill s)))
      else if g = muscle s
        then Some (js_min (Fin 100) (js_add (rd f g) (session_delta s)))
      else f g)"
proof -
  define f1 where
    "f1 = f(muscle s \<mapsto> js_min (Fin 100) (js_add (rd f (muscle s)) (session_delta s)))"
  have "applySession s f =
      foldl (\<lambda>next n. next(n \<mapsto> js_min (Fin 100) (js_add (rd next n) (session_spill s))))
        f1 (synergists (muscle s))"
    by (simp add: applySession_def Let_def session_spill_def session_delta_def f1_def)
  then have "applySession s f g =
      (if g \<in> set (synergists (muscle s))
         then Some (js_min (Fin 100) (js_add (rd f1 g) (session_spill s))) else f1 g)"
    using foldl_read_upd [OF synergists_distinct,
        of "\<lambda>v. js_min (Fin 100) (js_add v (session_spill s))" f1 "muscle s" g]
    by simp
  moreover have "g \<in> set (synergists (muscle s)) \<Longrightarrow> rd f1 g = rd f g"
    using synergists_irrefl [of "muscle s"] by (auto simp: f1_def rd_def)
  ultimately show ?thesis by (auto simp: f1_def)
qed

section \<open>Scores stay in range\<close>

lemma nonneg_cases: "nonneg v \<longleftrightarrow> v = PosInf \<or> (\<exists>r. v = Fin r \<and> 0 \<le> r)"
  by (cases v) (simp_all add: nonneg_def)

lemma nonneg_simps:
  "nonneg (Fin r) \<longleftrightarrow> 0 \<le> r" "nonneg PosInf" "\<not> nonneg NaN" "\<not> nonneg NegInf"
  by (simp_all add: nonneg_def)

lemma nonneg_fl: "0 \<le> x \<Longrightarrow> nonneg (fl x)"
  using fl_nonneg [of x] by (auto simp: nonneg_cases)

lemma nonneg_add: "nonneg a \<Longrightarrow> nonneg b \<Longrightarrow> nonneg (js_add a b)"
  by (cases a; cases b) (simp_all add: nonneg_simps nonneg_fl)

lemma nonneg_mul: "nonneg a \<Longrightarrow> 0 < t \<Longrightarrow> nonneg (js_mul a (Fin t))"
  by (cases a) (simp_all add: nonneg_simps nonneg_fl)

lemma nonneg_mul_left: "0 < t \<Longrightarrow> nonneg b \<Longrightarrow> nonneg (js_mul (Fin t) b)"
  by (cases b) (simp_all add: nonneg_simps nonneg_fl)

lemma nonneg_round: "nonneg a \<Longrightarrow> nonneg (js_round a)"
  by (cases a) (simp_all add: nonneg_simps)

lemma clamp_top:
  assumes "nonneg v"
  shows "\<exists>r. js_min (Fin 100) v = Fin r \<and> 0 \<le> r \<and> r \<le> 100"
  using assms by (cases v) (auto simp: nonneg_simps)

lemma LOAD_FACTOR_val: "LOAD_FACTOR = Fin (3152519739159347 / 4503599627370496)"
  by code_simp

lemma SPILL_FACTOR_val: "SPILL_FACTOR = Fin (3602879701896397 / 36028797018963968)"
  by code_simp

lemma valid_sessionD:
  assumes "valid_session s"
  obtains m l where "minutes s = Fin m" "1 \<le> m" "load s = Fin l" "1 \<le> l" "l \<le> 5"
  using assms by (auto simp: valid_session_def split: number.splits)

lemma delta_nonneg:
  assumes "valid_session s"
  shows "nonneg (session_delta s)"
proof -
  obtain m l where ml: "minutes s = Fin m" "1 \<le> m" "load s = Fin l" "1 \<le> l" "l \<le> 5"
    using assms by (rule valid_sessionD)
  have "nonneg (js_mul LOAD_FACTOR (load s))"
    using ml by (simp add: LOAD_FACTOR_val nonneg_fl)
  then have "nonneg (js_mul (js_mul LOAD_FACTOR (load s)) (minutes s))"
    using ml by (simp add: nonneg_mul)
  then show ?thesis
    unfolding session_delta_def SESSION_BASE_def by (intro nonneg_add) (simp_all add: nonneg_simps)
qed

lemma spill_nonneg:
  assumes "valid_session s"
  shows "nonneg (session_spill s)"
  unfolding session_spill_def SPILL_FACTOR_val
  by (intro nonneg_round nonneg_mul delta_nonneg assms) simp

lemma score_okD:
  assumes "score_ok v"
  obtains x where "v = Some (Fin x)" "0 \<le> x" "x \<le> 100"
  using assms by (auto simp: score_ok_def split: option.splits number.splits)

lemma in_range_iff: "in_range f \<longleftrightarrow> (\<forall>g. score_ok (f g))"
  using MUSCLES_all by (auto simp: in_range_def list_all_iff)

lemma score_ok_clamp_add:
  assumes "score_ok (f g)" "nonneg d"
  shows "score_ok (Some (js_min (Fin 100) (js_add (rd f g) d)))"
proof -
  obtain x where x: "f g = Some (Fin x)" "0 \<le> x" "x \<le> 100" using assms(1) by (rule score_okD)
  have "nonneg (js_add (rd f g) d)" using x assms(2) by (intro nonneg_add) (simp_all add: rd_def nonneg_simps)
  then show ?thesis using clamp_top by (fastforce simp: score_ok_def)
qed

lemma applySession_in_range:
  assumes "in_range f" "valid_session s"
  shows "in_range (applySession s f)"
  using assms by (simp add: in_range_iff applySession_apply score_ok_clamp_add delta_nonneg spill_nonneg)

lemma initFatigue_in_range: "in_range initFatigue"
  by (simp add: in_range_iff initFatigue_apply score_ok_def)

lemma js_gt_zero: "js_gt days (Fin 0) \<longleftrightarrow> days = PosInf \<or> (\<exists>d. days = Fin d \<and> 0 < d)"
  by (cases days) (simp_all add: js_gt_def)

lemma sub_clamp:
  assumes "0 \<le> x" "x \<le> 100" "nonneg c"
  shows "\<exists>r. js_max (Fin 0) (js_sub (Fin x) c) = Fin r \<and> 0 \<le> r \<and> r \<le> 100"
proof (cases c)
  case (Fin y)
  with assms have "x - y \<le> of_int 100" by (simp add: nonneg_simps)
  then have "fl (x - y) = NegInf \<or> (\<exists>r. fl (x - y) = Fin r \<and> r \<le> of_int 100)"
    by (rule fl_le_int) simp_all
  then show ?thesis using Fin by auto
qed (use assms in \<open>simp_all add: nonneg_simps\<close>)

lemma decay_in_range:
  assumes "in_range f"
  shows "in_range (decay days f)"
proof (cases "js_gt days (Fin 0)")
  case False
  with assms show ?thesis by (simp add: decay_def)
next
  case True
  then have "nonneg (js_mul DECAY_PER_DAY days)"
    unfolding DECAY_PER_DAY_def by (intro nonneg_mul_left) (auto simp: js_gt_zero nonneg_simps)
  then have c: "nonneg (js_mul DECAY_PER_DAY days)" .
  have "score_ok (decayUpdate days f g)" for g
  proof -
    have "score_ok (f g)" using assms by (simp add: in_range_iff)
    then obtain x where x: "f g = Some (Fin x)" "0 \<le> x" "x \<le> 100" by (rule score_okD)
    obtain r where "js_max (Fin 0) (js_sub (Fin x) (js_mul DECAY_PER_DAY days)) = Fin r"
      "0 \<le> r" "r \<le> 100"
      using sub_clamp [OF x(2,3) c] by blast
    then show ?thesis using x(1) by (simp add: decayUpdate_apply rd_def score_ok_def)
  qed
  then show ?thesis using True by (simp add: decay_def in_range_iff)
qed

section \<open>Scores stay binary64 values; the decay is exact\<close>

lemma is_double_fl: "fl x = Fin r \<Longrightarrow> is_double r"
  unfolding is_double_def by (rule fl_idem)

lemma is_double_int: "\<bar>k\<bar> \<le> 2 ^ 53 \<Longrightarrow> is_double (of_int k)"
  unfolding is_double_def by (rule fl_int)

lemma is_double_0: "is_double 0"
  using is_double_int [of 0] by simp

lemma is_double_100: "is_double 100"
  using is_double_int [of 100] by simp

lemma js_add_double: "js_add a b = Fin r \<Longrightarrow> is_double r"
  by (cases a; cases b) (simp_all add: is_double_fl)

lemma js_sub_double: "js_sub a b = Fin r \<Longrightarrow> is_double r"
  by (cases a; cases b) (simp_all add: is_double_fl)

lemma clamp_top_double: "js_min (Fin 100) (js_add a b) = Fin r \<Longrightarrow> is_double r"
  by (cases "js_add a b") (auto simp: is_double_100 js_add_double split: if_splits)

lemma clamp_bot_double: "js_max (Fin 0) (js_sub a b) = Fin r \<Longrightarrow> is_double r"
  by (cases "js_sub a b") (auto simp: is_double_0 js_sub_double split: if_splits)

lemma score_double_iff: "score_double v \<longleftrightarrow> (\<exists>x. v = Some (Fin x) \<and> is_double x)"
  by (auto simp: score_double_def split: option.splits number.splits)

lemma valid_reachable_in_range: "valid_reachable f \<Longrightarrow> in_range f"
  by (induction rule: valid_reachable.induct)
    (simp_all add: initFatigue_in_range decay_in_range applySession_in_range)

lemma valid_reachable_double:
  assumes "valid_reachable f"
  shows "score_double (f g)"
  using assms
proof (induction arbitrary: g rule: valid_reachable.induct)
  case reach_init
  then show ?case by (simp add: initFatigue_apply score_double_iff is_double_0)
next
  case (reach_decay f days)
  have "valid_reachable (decay days f)" using reach_decay.hyps by (rule valid_reachable.reach_decay)
  then have "score_ok (decay days f g)"
    using valid_reachable_in_range by (simp add: in_range_iff)
  then obtain x where x: "decay days f g = Some (Fin x)" by (rule score_okD)
  show ?case
  proof (cases "js_gt days (Fin 0)")
    case True
    with x have "is_double x" by (auto simp: decay_def decayUpdate_apply dest: clamp_bot_double)
    with x show ?thesis by (simp add: score_double_iff)
  next
    case False
    then show ?thesis using reach_decay.IH [of g] by (simp add: decay_def)
  qed
next
  case (reach_session f s)
  have "valid_reachable (applySession s f)" using reach_session.hyps by (rule valid_reachable.reach_session)
  then have "score_ok (applySession s f g)"
    using valid_reachable_in_range by (simp add: in_range_iff)
  then obtain x where x: "applySession s f g = Some (Fin x)" by (rule score_okD)
  then have "is_double x \<or> applySession s f g = f g"
    by (auto simp: applySession_apply dest: clamp_top_double split: if_splits)
  then show ?case using x reach_session.IH [of g] by (auto simp: score_double_iff)
qed

text \<open>The product \<open>18 * days\<close> for a whole number of days.\<close>

lemma mul18:
  assumes "0 \<le> d"
  shows "js_mul DECAY_PER_DAY (Fin (of_int d)) = Fin (of_int (18 * d)) \<or>
         (2 ^ 53 \<le> 18 * d \<and>
          (js_mul DECAY_PER_DAY (Fin (of_int d)) = PosInf \<or>
           (\<exists>c. js_mul DECAY_PER_DAY (Fin (of_int d)) = Fin c \<and> 2 ^ 53 \<le> c)))"
proof (cases "18 * d \<le> 2 ^ 53")
  case True
  then have "\<bar>18 * d\<bar> \<le> 2 ^ 53" using assms by simp
  then have "fl (of_int (18 * d)) = Fin (of_int (18 * d))" by (rule fl_int)
  then show ?thesis by (simp add: DECAY_PER_DAY_def)
next
  case False
  then have big: "2 ^ 53 \<le> 18 * d" by simp
  then have "rat_of_int (2 ^ 53) \<le> of_int (18 * d)" by (simp only: of_int_le_iff)
  then have "2 ^ 53 \<le> 18 * rat_of_int d" by simp
  then have "fl (18 * of_int d) = PosInf \<or> (\<exists>r. fl (18 * of_int d) = Fin r \<and> 2 ^ 53 \<le> r)"
    by (rule fl_ge_big)
  with big show ?thesis by (simp add: DECAY_PER_DAY_def)
qed

lemma decayUpdate_exact:
  assumes f: "f g = Some (Fin x)" and dbl: "is_double x" and x: "0 \<le> x" "x \<le> 100"
    and d: "0 \<le> d"
  shows "decayUpdate (Fin (of_int d)) f g = Some (Fin (max 0 (x - 18 * of_int d)))"
proof -
  let ?c = "js_mul DECAY_PER_DAY (Fin (of_int d))"
  have neg: "js_max (Fin 0) (fl y) = Fin 0" if "y \<le> 0" for y
    using fl_nonpos [OF that] by auto
  have "js_max (Fin 0) (js_sub (Fin x) ?c) = Fin (max 0 (x - 18 * of_int d))"
  proof (cases "?c = Fin (of_int (18 * d))")
    case True
    show ?thesis
    proof (cases "of_int (18 * d) \<le> x")
      case le: True
      have "is_double (x - of_int (18 * d))"
        using dbl _ _ le by (rule is_double_sub_int) (use x d in simp_all)
      then have "fl (x - of_int (18 * d)) = Fin (x - of_int (18 * d))" by (simp add: is_double_def)
      then show ?thesis using True le by (simp add: max_def)
    next
      case False
      then have "x - of_int (18 * d) \<le> 0" by simp
      then have "js_max (Fin 0) (fl (x - of_int (18 * d))) = Fin 0" by (rule neg)
      then show ?thesis using True False by (simp add: max_def)
    qed
  next
    case False
    then have big: "2 ^ 53 \<le> 18 * d"
      and c: "?c = PosInf \<or> (\<exists>c. ?c = Fin c \<and> 2 ^ 53 \<le> c)"
      using mul18 [OF d] by auto
    have "rat_of_int (2 ^ 53) \<le> of_int (18 * d)" using big by (simp only: of_int_le_iff)
    then have m: "max 0 (x - 18 * of_int d) = 0" using x by simp
    from c show ?thesis
    proof
      assume "?c = PosInf"
      then show ?thesis by (simp add: m)
    next
      assume "\<exists>c. ?c = Fin c \<and> 2 ^ 53 \<le> c"
      then obtain c where c: "?c = Fin c" "2 ^ 53 \<le> c" by blast
      then have "x - c \<le> 0" using x by simp
      then have "js_max (Fin 0) (fl (x - c)) = Fin 0" by (rule neg)
      then show ?thesis using c(1) by (simp add: m)
    qed
  qed
  then show ?thesis using f by (simp add: decayUpdate_apply rd_def)
qed

lemma decay_exact:
  assumes f: "f g = Some (Fin x)" and dbl: "is_double x" and x: "0 \<le> x" "x \<le> 100"
  shows "decay (Fin (of_nat d)) f g = Some (Fin (max 0 (x - 18 * of_nat d)))"
proof (cases "d = 0")
  case True
  then show ?thesis using f x by (simp add: decay_def js_gt_def)
next
  case False
  have "decayUpdate (Fin (of_int (int d))) f g = Some (Fin (max 0 (x - 18 * of_int (int d))))"
    using f dbl x by (rule decayUpdate_exact) simp
  then show ?thesis using False by (simp add: decay_def js_gt_def)
qed

section \<open>The worked scenario, step by step\<close>

lemma scenario_mul_load:
  "js_mul LOAD_FACTOR (Fin 3) = Fin (1182194902184755 / 562949953421312)"
  by code_simp

lemma scenario_mul_minutes:
  "js_mul (Fin (1182194902184755 / 562949953421312)) (Fin 45) =
     Fin (6649846324789247 / 70368744177664)"
  by code_simp

lemma scenario_add_base:
  "js_add (Fin 4) (Fin (6649846324789247 / 70368744177664)) =
     Fin (6931321301499903 / 70368744177664)"
  by code_simp

lemma scenario_round:
  "js_round (js_mul (Fin (6931321301499903 / 70368744177664)) SPILL_FACTOR) = Fin 10"
  by code_simp

lemma scenario_delta:
  assumes "load s = Fin 3" "minutes s = Fin 45"
  shows "session_delta s = Fin (6931321301499903 / 70368744177664)"
  by (simp only: session_delta_def SESSION_BASE_def assms scenario_mul_load
      scenario_mul_minutes scenario_add_base)

lemma scenario_spill:
  assumes "load s = Fin 3" "minutes s = Fin 45"
  shows "session_spill s = Fin 10"
  by (simp only: session_spill_def scenario_delta [OF assms] scenario_round)

lemma scenario_store:
  "fl (6931321301499903 / 70368744177664) = Fin (6931321301499903 / 70368744177664)"
  using js_add_double [OF scenario_add_base] by (simp only: is_double_def)

lemma fl_10: "fl 10 = Fin 10"
  using fl_int [of 10] by simp

lemma valid_chest45: "valid_session chest45"
  by (simp add: valid_session_def)

lemma scenario_target:
  "applySession chest45 initFatigue Chest = Some (Fin (6931321301499903 / 70368744177664))"
  by (simp add: applySession_apply synergists_def initFatigue_apply rd_def scenario_delta
      scenario_store)

lemma scenario_neighbours:
  "applySession chest45 initFatigue Triceps = Some (Fin 10)"
  "applySession chest45 initFatigue Shoulders = Some (Fin 10)"
  by (simp_all add: applySession_apply synergists_def initFatigue_apply rd_def scenario_spill fl_10)

lemma scenario_twice:
  "js_min (Fin 100) (js_add (Fin (6931321301499903 / 70368744177664))
     (Fin (6931321301499903 / 70368744177664))) = Fin 100"
  by code_simp

lemma scenario_pct: "js_round (Fin (6931321301499903 / 70368744177664)) = Fin 98"
  by (simp add: floor_eq_iff)

lemma scenario_saturated:
  "js_min (Fin 100) (js_add (Fin 100) (Fin (6931321301499903 / 70368744177664))) = Fin 100"
  by code_simp

lemma scenario_form:
  "mkSession ''s1'' ''2025-01-01T00:00:00.000Z'' initialState = chest45"
  by code_simp

section \<open>Totality of the state, validity of the built session\<close>

lemma MUSCLES_UNIV: "set MUSCLES = UNIV"
  using MUSCLES_all by auto

lemma score_ok_iff: "score_ok v \<longleftrightarrow> (\<exists>x. v = Some (Fin x) \<and> 0 \<le> x \<and> x \<le> 100)"
proof (cases v)
  case None
  then show ?thesis by (simp add: score_ok_def)
next
  case (Some a)
  then show ?thesis by (cases a) (simp_all add: score_ok_def)
qed

lemma in_range_explicit:
  "in_range f \<longleftrightarrow> (\<forall>g. \<exists>x. f g = Some (Fin x) \<and> 0 \<le> x \<and> x \<le> 100)"
  by (simp add: in_range_iff score_ok_iff)

lemma in_range_dom: "in_range f \<Longrightarrow> dom f = set MUSCLES"
  unfolding MUSCLES_UNIV in_range_explicit by (auto simp: dom_def)

text \<open>The clamps of \<^verbatim>\<open>addSession\<close> turn finite form fields into a valid session.\<close>

lemma clamp_load:
  "js_min (Fin 5) (js_max (Fin 1) (Fin (of_int k))) \<in> set [Fin 1, Fin 2, Fin 3, Fin 4, Fin 5]"
proof -
  have "k \<le> 1 \<or> k = 2 \<or> k = 3 \<or> k = 4 \<or> 5 \<le> k" by arith
  then show ?thesis by (elim disjE) simp_all
qed

lemma clamp_minutes:
  "\<exists>m. js_max (Fin 1) (Fin (of_int k)) = Fin m \<and> 1 \<le> m \<and> m = of_int \<lfloor>m\<rfloor>"
  by (cases "1 < k") simp_all

lemma mkSession_valid:
  assumes "minutes_in st = Fin a" "load_in st = Fin b"
  shows "valid_session (mkSession uid now st)"
proof -
  obtain m where "js_max (Fin 1) (js_round (minutes_in st)) = Fin m" "1 \<le> m" "m = of_int \<lfloor>m\<rfloor>"
    using clamp_minutes [of "\<lfloor>a + 1 / 2\<rfloor>"] assms(1) by auto
  moreover have "js_min (Fin 5) (js_max (Fin 1) (js_round (load_in st)))
      \<in> set [Fin 1, Fin 2, Fin 3, Fin 4, Fin 5]"
    using clamp_load [of "\<lfloor>b + 1 / 2\<rfloor>"] assms(2) by simp
  ultimately show ?thesis by (simp add: valid_session_def mkSession_def)
qed

lemma addSession_in_range:
  assumes "minutes_in st = Fin a" "load_in st = Fin b" "in_range (fatigue st)"
  shows "in_range (fatigue (addSession uid now st))"
  using applySession_in_range [OF assms(3) mkSession_valid [OF assms(1,2)]]
  by (simp add: addSession_def Let_def)

lemma clamp_top_id:
  assumes "x \<le> 100"
  shows "js_min (Fin 100) (fl x) = fl x"
proof -
  have "x \<le> of_int 100" using assms by simp
  then have "fl x = NegInf \<or> (\<exists>r. fl x = Fin r \<and> r \<le> of_int 100)"
    by (rule fl_le_int) simp_all
  then show ?thesis by auto
qed

lemma synergists_length: "length (synergists m) \<le> 2"
  by (cases m) (simp_all add: synergists_def)

text \<open>
  The clamps do not catch a form field that is NaN (\<^verbatim>\<open>parseInt\<close> of a string without a
  leading digit): the minutes of the session are then NaN, and so is the score written.
\<close>

lemma addSession_nan:
  "minutes (mkSession uid now (st\<lparr>minutes_in := NaN\<rparr>)) = NaN \<and>
   fatigue (addSession uid now (st\<lparr>minutes_in := NaN\<rparr>)) (muscle_in st) = Some NaN"
proof -
  have n: "js_mul v NaN = NaN" "js_add v NaN = NaN" for v by (cases v; simp)+
  have "session_delta (mkSession uid now (st\<lparr>minutes_in := NaN\<rparr>)) = NaN"
    by (simp add: session_delta_def mkSession_def n)
  moreover have "js_min (Fin 100) (js_add v NaN) = NaN" for v by (simp add: n)
  moreover have "muscle (mkSession uid now (st\<lparr>minutes_in := NaN\<rparr>)) = muscle_in st"
    by (simp add: mkSession_def)
  ultimately show ?thesis
    using synergists_irrefl [of "muscle_in st"]
    by (simp add: addSession_def Let_def applySession_apply) (simp add: mkSession_def)
qed

text \<open>
  The arithmetic being binary64, the spill can differ from the one exact arithmetic would
  give: for load 3 and 310 minutes the delta is just below 655 and the spill is 65, where a
  tenth of 655 rounds to 66.
\<close>

lemma spill_example_310:
  "session_spill (chest45\<lparr>minutes := Fin 310\<rparr>) = Fin 65 \<and>
   \<lfloor>(4 + 7 / 10 * 3 * 310) / 10 + 1 / 2 :: rat\<rfloor> = 66"
proof -
  have m: "js_mul (Fin (1182194902184755 / 562949953421312)) (Fin 310) =
      Fin (5726256557457407 / 8796093022208)"
    by code_simp
  have a: "js_add (Fin 4) (Fin (5726256557457407 / 8796093022208)) =
      Fin (5761440929546239 / 8796093022208)"
    by code_simp
  have r: "js_round (js_mul (Fin (5761440929546239 / 8796093022208)) SPILL_FACTOR) = Fin 65"
    by code_simp
  have l: "load (chest45\<lparr>minutes := Fin 310\<rparr>) = Fin 3"
    and n: "minutes (chest45\<lparr>minutes := Fin 310\<rparr>) = Fin 310"
    by simp_all
  have "session_spill (chest45\<lparr>minutes := Fin 310\<rparr>) = Fin 65"
    by (simp only: session_spill_def session_delta_def SESSION_BASE_def l n scenario_mul_load m a r)
  moreover have "\<lfloor>(4 + 7 / 10 * 3 * 310) / 10 + 1 / 2 :: rat\<rfloor> = 66"
    by (simp add: floor_eq_iff)
  ultimately show ?thesis by simp
qed

section \<open>Two more sessions, step by step\<close>

lemma fl_whole: "fl 35 = Fin 35" "fl 39 = Fin 39" "fl 4 = Fin 4"
  using fl_int [of 35] fl_int [of 39] fl_int [of 4] by simp_all

lemma load_factor_store:
  "fl (3152519739159347 / 4503599627370496) = Fin (3152519739159347 / 4503599627370496)"
  using LOAD_FACTOR_val unfolding LOAD_FACTOR_def by (rule fl_idem)

lemma triceps1_add_base:
  "js_add (Fin 4) (Fin (3152519739159347 / 4503599627370496)) =
     Fin (5291729562160333 / 1125899906842624)"
  by code_simp

lemma triceps1_round:
  "js_round (js_mul (Fin (5291729562160333 / 1125899906842624)) SPILL_FACTOR) = Fin 0"
  by code_simp

lemma triceps1_store:
  "fl (5291729562160333 / 1125899906842624) = Fin (5291729562160333 / 1125899906842624)"
  using js_add_double [OF triceps1_add_base] by (simp only: is_double_def)

lemma triceps1_delta: "session_delta triceps1 = Fin (5291729562160333 / 1125899906842624)"
proof -
  have "js_mul (js_mul LOAD_FACTOR (Fin 1)) (Fin 1) = Fin (3152519739159347 / 4503599627370496)"
    by (simp add: LOAD_FACTOR_val load_factor_store)
  then show ?thesis by (simp add: session_delta_def SESSION_BASE_def triceps1_add_base
        del: js_add.simps js_mul.simps)
qed

lemma triceps1_target:
  "applySession triceps1 initFatigue Triceps = Some (Fin (5291729562160333 / 1125899906842624))"
  by (simp add: applySession_apply synergists_def initFatigue_apply rd_def triceps1_delta
      triceps1_store)

lemma chest10_mul_load: "js_mul LOAD_FACTOR (Fin 5) = Fin (7 / 2)"
  by code_simp

lemma chest10_round: "js_round (js_mul (Fin 39) SPILL_FACTOR) = Fin 4"
  by code_simp

lemma chest10_delta: "session_delta chest10 = Fin 39"
proof -
  have "js_mul (js_mul LOAD_FACTOR (Fin 5)) (Fin 10) = Fin 35"
    by (simp add: chest10_mul_load fl_whole)
  then show ?thesis by (simp add: session_delta_def SESSION_BASE_def fl_whole del: js_mul.simps)
qed

lemma chest10_spill: "session_spill chest10 = Fin 4"
  by (simp only: session_spill_def chest10_delta chest10_round)

lemma inexact_sum:
  "js_add (Fin (5291729562160333 / 1125899906842624)) (Fin 4) =
     Fin (2448832297382707 / 281474976710656)"
  by code_simp

lemma chest10_after_triceps1:
  "applySession chest10 (applySession triceps1 initFatigue) Triceps =
     Some (Fin (2448832297382707 / 281474976710656))"
  by (simp add: applySession_apply [of chest10] synergists_def rd_def triceps1_target
      chest10_spill inexact_sum del: js_add.simps)

lemma chest310_neighbour: "applySession chest310 initFatigue Triceps = Some (Fin 65)"
proof -
  have "session_spill chest310 = Fin 65" using spill_example_310 by simp
  moreover have "fl 65 = Fin 65" using fl_int [of 65] by simp
  ultimately show ?thesis
    by (simp add: applySession_apply synergists_def initFatigue_apply rd_def)
qed

section \<open>The claims\<close>

text \<open>
  C1. The initial state gives each of the eleven groups the score 0, and a decay or a
  session with valid fields keeps every score between 0 and 100 (lemmas
  \<open>initFatigue_in_range\<close>, \<open>decay_in_range\<close>, \<open>applySession_in_range\<close>). The invariant
  does not hold of every state the component reaches. \<^verbatim>\<open>addSession\<close> bounds the minutes with
  \<^verbatim>\<open>Math.max(1, Math.round(minutes))\<close>, which lets NaN through, and the minutes field is NaN
  after \<^verbatim>\<open>parseInt\<close> of an entry such as \<^verbatim>\<open>.5\<close>. Saving the form in that state, from the
  initial fatigue, writes NaN as the score of the chest, the triceps and the shoulders; a
  load field that is NaN does the same.
\<close>

theorem nan_minutes_break_range:
  "in_range (fatigue (initialState\<lparr>minutes_in := NaN\<rparr>)) \<and>
   minutes (mkSession ''s1'' ''2025-01-01T00:00:00.000Z'' (initialState\<lparr>minutes_in := NaN\<rparr>)) = NaN \<and>
   fatigue (addSession ''s1'' ''2025-01-01T00:00:00.000Z'' (initialState\<lparr>minutes_in := NaN\<rparr>))
     Chest = Some NaN \<and>
   fatigue (addSession ''s1'' ''2025-01-01T00:00:00.000Z'' (initialState\<lparr>minutes_in := NaN\<rparr>))
     Triceps = Some NaN \<and>
   fatigue (addSession ''s1'' ''2025-01-01T00:00:00.000Z'' (initialState\<lparr>minutes_in := NaN\<rparr>))
     Shoulders = Some NaN \<and>
   \<not> in_range
     (fatigue (addSession ''s1'' ''2025-01-01T00:00:00.000Z'' (initialState\<lparr>minutes_in := NaN\<rparr>))) \<and>
   fatigue (addSession ''s1'' ''2025-01-01T00:00:00.000Z'' (initialState\<lparr>load_in := NaN\<rparr>))
     Chest = Some NaN"
proof -
  let ?st = "initialState\<lparr>minutes_in := NaN\<rparr>"
  let ?s = "mkSession ''s1'' ''2025-01-01T00:00:00.000Z'' ?st"
  let ?f = "fatigue (addSession ''s1'' ''2025-01-01T00:00:00.000Z'' ?st)"
  have n: "js_mul v NaN = NaN" "js_add v NaN = NaN" for v by (cases v; simp)+
  have m: "muscle ?s = Chest" "minutes ?s = NaN" by (simp_all add: mkSession_def initialState_def)
  have d: "session_delta ?s = NaN" by (simp add: session_delta_def m n)
  have p: "session_spill ?s = NaN" by (simp add: session_spill_def d)
  have f: "?f = applySession ?s initFatigue"
    by (simp add: addSession_def Let_def initialState_def)
  have c: "?f Chest = Some NaN" and t: "?f Triceps = Some NaN" and h: "?f Shoulders = Some NaN"
    unfolding f by (simp_all add: applySession_apply m d p n synergists_def)
  have "\<not> score_ok (?f Chest)" unfolding c by (simp add: score_ok_def)
  then have "\<not> in_range ?f" unfolding in_range_iff by blast
  moreover have "in_range (fatigue ?st)" by (simp add: initialState_def initFatigue_in_range)
  moreover have "fatigue (addSession ''s1'' ''2025-01-01T00:00:00.000Z''
      (initialState\<lparr>load_in := NaN\<rparr>)) Chest = Some NaN"
  proof -
    let ?l = "mkSession ''s1'' ''2025-01-01T00:00:00.000Z'' (initialState\<lparr>load_in := NaN\<rparr>)"
    have "muscle ?l = Chest" "load ?l = NaN" by (simp_all add: mkSession_def initialState_def)
    moreover from this have "session_delta ?l = NaN" by (simp add: session_delta_def n)
    ultimately show ?thesis
      by (simp add: addSession_def Let_def applySession_apply n synergists_def)
  qed
  ultimately show ?thesis using m(2) c t h by simp
qed

text \<open>
  C2. On a state whose score for a group is a binary64 value between 0 and 100, a decay by a
  whole number of days \<open>d \<ge> 0\<close> leaves exactly \<open>max 0 (score - 18 * d)\<close>: no rounding error
  enters, since \<open>18 * d\<close> and the difference are both binary64 values whenever the difference
  is positive. So the new score is never below 0, and more days never give a higher score.
\<close>

theorem decay_formula:
  assumes "f g = Some (Fin x)" and "is_double x" and "0 \<le> x" and "x \<le> 100"
  shows "decay (Fin (of_nat d)) f g = Some (Fin (max 0 (x - 18 * of_nat d))) \<and>
         DECAY_PER_DAY = Fin 18 \<and>
         (\<exists>y. decay (Fin (of_nat d)) f g = Some (Fin y) \<and> 0 \<le> y) \<and>
         (\<forall>d'. d \<le> d' \<longrightarrow>
            (\<exists>y y'. decay (Fin (of_nat d)) f g = Some (Fin y) \<and>
                    decay (Fin (of_nat d')) f g = Some (Fin y') \<and> y' \<le> y))"
proof -
  have e: "decay (Fin (of_nat k)) f g = Some (Fin (max 0 (x - 18 * of_nat k)))" for k
    using assms by (rule decay_exact)
  have "max 0 (x - 18 * rat_of_nat d') \<le> max 0 (x - 18 * of_nat d)" if "d \<le> d'" for d'
  proof -
    have "rat_of_nat d \<le> of_nat d'" using that by simp
    then show ?thesis by (simp add: max_def)
  qed
  then show ?thesis by (simp add: e DECAY_PER_DAY_def)
qed

theorem decay_formula_witness:
  "decay (Fin 3) (initFatigue(Chest \<mapsto> Fin 50)) Chest = Some (Fin 0) \<and>
   decay (Fin 1) (initFatigue(Chest \<mapsto> Fin 50)) Chest = Some (Fin 32)"
proof -
  let ?f = "initFatigue(Chest \<mapsto> Fin 50)"
  have f: "?f Chest = Some (Fin 50)" by simp
  have d: "is_double 50" using is_double_int [of 50] by simp
  have b: "(0::rat) \<le> 50" "(50::rat) \<le> 100" by simp_all
  show ?thesis
    using decay_formula [where f = ?f and g = Chest and x = 50 and d = 3, OF f d b]
      decay_formula [where f = ?f and g = Chest and x = 50 and d = 1, OF f d b]
    by simp
qed

text \<open>
  C3. A decay by zero days returns the state it was given: the guard \<^verbatim>\<open>days > 0\<close> fails and
  no update is made, so no score is touched, whatever the state holds. (The rate is the
  constant \<^verbatim>\<open>DECAY_PER_DAY\<close>; it plays no part when no day has elapsed.)
\<close>

theorem decay_zero_identity:
  "decay (Fin 0) f = f \<and> fatigue (decayEffect nowISO (Fin 0) st) = fatigue st"
  by (simp add: decay_def js_gt_def decayEffect_def)

text \<open>
  C4. Applying a session with valid fields to an in-range state gives an in-range state, so
  no score exceeds 100. The target's score is \<^verbatim>\<open>Math.min(100, old + delta)\<close> and each
  synergist's score is \<^verbatim>\<open>Math.min(100, old + spill)\<close>, where \<open>old\<close> is the group's own score
  before the session: no clamp depends on another group's score.
\<close>

theorem session_clamped:
  assumes "in_range f" and "valid_session s"
  shows "in_range (applySession s f) \<and>
         (\<forall>g. \<exists>x. applySession s f g = Some (Fin x) \<and> x \<le> 100) \<and>
         applySession s f (muscle s) =
           Some (js_min (Fin 100) (js_add (rd f (muscle s)) (session_delta s))) \<and>
         (\<forall>n \<in> set (synergists (muscle s)).
            applySession s f n = Some (js_min (Fin 100) (js_add (rd f n) (session_spill s))))"
proof -
  have r: "in_range (applySession s f)" using assms by (rule applySession_in_range)
  then have "\<forall>g. \<exists>x. applySession s f g = Some (Fin x) \<and> x \<le> 100"
    unfolding in_range_explicit by blast
  moreover have "muscle s \<notin> set (synergists (muscle s))" by (rule synergists_irrefl)
  ultimately show ?thesis using r by (simp add: applySession_apply)
qed

theorem session_clamped_witness:
  "in_range (applySession chest45 (applySession chest45 initFatigue)) \<and>
   applySession chest45 (applySession chest45 initFatigue) Chest = Some (Fin 100)"
proof -
  let ?f = "applySession chest45 initFatigue"
  have i: "in_range ?f" using initFatigue_in_range valid_chest45 by (rule applySession_in_range)
  have d: "session_delta chest45 = Fin (6931321301499903 / 70368744177664)"
    by (simp add: scenario_delta)
  show ?thesis
    using session_clamped [OF i valid_chest45]
    by (simp add: rd_def scenario_target d scenario_twice del: js_add.simps js_min.simps)
qed

text \<open>
  C5. From the all-zero state, the session chest, 45 minutes, load 3 does not leave the
  chest at 98.5.
\<close>

theorem chest_scenario_counterexample:
  "applySession chest45 initFatigue Chest \<noteq> Some (Fin (197 / 2))"
  by (simp add: scenario_target)

text \<open>
  C5, as the code has it. The direct delta \<^verbatim>\<open>4 + 0.7 * 3 * 45\<close> is evaluated in binary64:
  \<^verbatim>\<open>0.7 * 3\<close> rounds to 2.0999999999999996, times 45 rounds to 94.49999999999999, and the
  chest is left at \<open>98.5 - 2 ^ -46\<close>, printed 98.49999999999999, which the board shows as 98
  where 98.5 would show as 99. The spill is \<^verbatim>\<open>Math.round\<close> of 9.85, that is 10; triceps and
  shoulders end at exactly 10, and every other group stays at 0.
\<close>

theorem chest_scenario:
  "session_delta chest45 = Fin (197 / 2 - 1 / 2 ^ 46) \<and>
   applySession chest45 initFatigue Chest = Some (Fin (197 / 2 - 1 / 2 ^ 46)) \<and>
   session_spill chest45 = Fin 10 \<and>
   applySession chest45 initFatigue Triceps = Some (Fin 10) \<and>
   applySession chest45 initFatigue Shoulders = Some (Fin 10) \<and>
   map (applySession chest45 initFatigue)
     [Back, Biceps, Quads, Hamstrings, Glutes, Calves, Core, Cardio] = replicate 8 (Some (Fin 0)) \<and>
   pct (applySession chest45 initFatigue) Chest = Fin 98 \<and>
   js_round (Fin (197 / 2)) = Fin 99"
proof -
  have v: "(197 / 2 - 1 / 2 ^ 46 :: rat) = 6931321301499903 / 70368744177664" by simp
  have "pct (applySession chest45 initFatigue) Chest = Fin 98"
    by (simp only: pct_def rd_def scenario_target option.case scenario_pct)
  moreover have "map (applySession chest45 initFatigue)
      [Back, Biceps, Quads, Hamstrings, Glutes, Calves, Core, Cardio] = replicate 8 (Some (Fin 0))"
    by (simp add: applySession_apply synergists_def initFatigue_apply numeral_eq_Suc)
  moreover have "js_round (Fin (197 / 2)) = Fin 99" by simp
  ultimately show ?thesis
    unfolding v by (simp add: scenario_target scenario_neighbours scenario_delta scenario_spill)
qed

text \<open>
  C6. The spill is not always the rounded tenth of \<open>4 + 0.7 * load * minutes\<close>, and an
  unsaturated synergist does not always gain exactly the spill. For load 3 and 310 minutes
  the triceps go from 0 to 65, where a tenth of 655 rounds to 66. After a triceps session
  of one minute at load 1 the triceps stand at the binary64 value of 4.7; a chest session
  of 10 minutes at load 5 has spill 4 and leaves them \<open>2 ^ -50\<close> short of that value plus 4.
\<close>

theorem spill_counterexample:
  "applySession chest310 initFatigue Triceps = Some (Fin 65) \<and>
   \<lfloor>(4 + 7 / 10 * 3 * 310) / 10 + 1 / 2 :: rat\<rfloor> = 66 \<and>
   round_even ((4 + 7 / 10 * 3 * 310) / 10) = 66 \<and>
   applySession triceps1 initFatigue Triceps = Some (Fin (5291729562160333 / 1125899906842624)) \<and>
   session_spill chest10 = Fin 4 \<and>
   applySession chest10 (applySession triceps1 initFatigue) Triceps =
     Some (Fin (5291729562160333 / 1125899906842624 + 4 - 1 / 2 ^ 50)) \<and>
   applySession chest10 (applySession triceps1 initFatigue) Triceps \<noteq>
     Some (Fin (5291729562160333 / 1125899906842624 + 4))"
proof -
  have v: "(5291729562160333 / 1125899906842624 + 4 - 1 / 2 ^ 50 :: rat) =
      2448832297382707 / 281474976710656"
    by simp
  have n: "((4 + 7 / 10 * 3 * 310) / 10 :: rat) = 131 / 2" by simp
  have f: "\<lfloor>131 / 2 :: rat\<rfloor> = 65" by (simp add: floor_eq_iff)
  have "round_even ((4 + 7 / 10 * 3 * 310) / 10) = 66"
    unfolding n by (simp add: round_even_def Let_def f)
  moreover have "\<lfloor>(4 + 7 / 10 * 3 * 310) / 10 + 1 / 2 :: rat\<rfloor> = 66"
    using spill_example_310 by blast
  ultimately show ?thesis
    unfolding v
    by (simp add: chest310_neighbour triceps1_target chest10_spill chest10_after_triceps1)
qed

text \<open>
  C6, as the code has it. Each synergist is set to \<^verbatim>\<open>Math.min(100, old + spill)\<close>, where the
  spill is \<^verbatim>\<open>Math.round\<close> (ties towards \<open>+\<infinity>\<close>) of the binary64 product of 0.1 and the
  delta, the delta being the binary64 value of \<^verbatim>\<open>SESSION_BASE + LOAD_FACTOR * load * minutes\<close>
  computed from left to right, before and whatever the clamp of the target: the target's
  score has no part in it. When the synergist's score plus the spill does not exceed 100
  the clamp takes nothing away and the new score is the binary64 sum of the two: the
  exact sum when that is a binary64 value, the binary64 value nearest to it otherwise.
\<close>

theorem spill_binary64:
  assumes "n \<in> set (synergists (muscle s))"
  shows "applySession s f n =
           Some (js_min (Fin 100) (js_add (rd f n)
             (js_round (js_mul
               (js_add SESSION_BASE (js_mul (js_mul LOAD_FACTOR (load s)) (minutes s)))
               SPILL_FACTOR)))) \<and>
         applySession s (f(muscle s \<mapsto> v)) n = applySession s f n \<and>
         (f n = Some (Fin old) \<longrightarrow>
          js_round (js_mul
            (js_add SESSION_BASE (js_mul (js_mul LOAD_FACTOR (load s)) (minutes s)))
            SPILL_FACTOR) = Fin p \<longrightarrow>
          old + p \<le> 100 \<longrightarrow>
            applySession s f n = Some (fl (old + p)) \<and>
            (is_double (old + p) \<longrightarrow> applySession s f n = Some (Fin (old + p))))"
proof -
  have m: "n \<noteq> muscle s" using assms synergists_irrefl [of "muscle s"] by auto
  have w: "applySession s g n = Some (js_min (Fin 100) (js_add (rd g n)
      (js_round (js_mul
        (js_add SESSION_BASE (js_mul (js_mul LOAD_FACTOR (load s)) (minutes s)))
        SPILL_FACTOR))))" for g
    using assms by (simp add: applySession_apply session_spill_def session_delta_def)
  have r: "rd (f(muscle s \<mapsto> v)) n = rd f n" using m by (simp add: rd_def)
  have c: "js_min (Fin 100) (fl (old + p)) = fl (old + p)" if "old + p \<le> 100"
    using that by (rule clamp_top_id)
  show ?thesis
    using w [of f] w [of "f(muscle s \<mapsto> v)"] r c
    by (auto simp: rd_def is_double_def)
qed

theorem spill_binary64_witness:
  "applySession chest10 (applySession triceps1 initFatigue) Triceps =
     Some (fl (5291729562160333 / 1125899906842624 + 4)) \<and>
   fl (5291729562160333 / 1125899906842624 + 4) =
     Fin (5291729562160333 / 1125899906842624 + 4 - 1 / 2 ^ 50) \<and>
   applySession chest10 ((applySession triceps1 initFatigue)(Chest \<mapsto> Fin 100)) Triceps =
     applySession chest10 (applySession triceps1 initFatigue) Triceps \<and>
   applySession chest10 initFatigue Shoulders = Some (Fin 4)"
proof -
  let ?f = "applySession triceps1 initFatigue"
  let ?spill = "js_round (js_mul
      (js_add SESSION_BASE (js_mul (js_mul LOAD_FACTOR (load chest10)) (minutes chest10)))
      SPILL_FACTOR)"
  have t: "Triceps \<in> set (synergists (muscle chest10))"
    and h: "Shoulders \<in> set (synergists (muscle chest10))"
    by (simp_all add: synergists_def)
  have p: "?spill = Fin 4"
    using chest10_spill by (simp only: session_spill_def session_delta_def)
  have o: "?f Triceps = Some (Fin (5291729562160333 / 1125899906842624))"
    by (rule triceps1_target)
  have b: "(5291729562160333 / 1125899906842624 :: rat) + 4 \<le> 100" by simp
  have z: "initFatigue Shoulders = Some (Fin 0)" by (rule initFatigue_apply)
  have bz: "(0 :: rat) + 4 \<le> 100" and dz: "is_double (0 + 4)"
    by (simp_all add: is_double_def fl_whole)
  have v: "(5291729562160333 / 1125899906842624 + 4 - 1 / 2 ^ 50 :: rat) =
      2448832297382707 / 281474976710656"
    by simp
  have e: "fl (5291729562160333 / 1125899906842624 + 4) =
      Fin (5291729562160333 / 1125899906842624 + 4 - 1 / 2 ^ 50)"
    unfolding v using inexact_sum by (simp only: js_add.simps)
  have 1: "applySession chest10 ?f Triceps = Some (fl (5291729562160333 / 1125899906842624 + 4))"
    using spill_binary64 [where s = chest10 and f = ?f and n = Triceps
        and old = "5291729562160333 / 1125899906842624" and p = 4, OF t] o p b
    by blast
  have 2: "applySession chest10 (?f(Chest \<mapsto> Fin 100)) Triceps = applySession chest10 ?f Triceps"
    using spill_binary64 [where s = chest10 and f = ?f and n = Triceps and v = "Fin 100", OF t]
    by simp
  have "applySession chest10 initFatigue Shoulders = Some (Fin (0 + 4))"
    using spill_binary64 [where s = chest10 and f = initFatigue and n = Shoulders
        and old = 0 and p = 4, OF h] z p bz dz
    by blast
  then have 3: "applySession chest10 initFatigue Shoulders = Some (Fin 4)" by simp
  from 1 e 2 3 show ?thesis by simp
qed

text \<open>
  C7. The synergist table is fixed and directional: at most two groups per muscle, the
  chest spills to triceps and shoulders while triceps spill to the chest only, and the
  relation is not symmetric (the core spills to the back, the back not to the core). A
  session uses this table once: each listed synergist receives the spill once, and a
  neighbour of a neighbour that is not itself listed keeps its score.
\<close>

theorem synergist_table:
  "synergists Chest = [Triceps, Shoulders] \<and> synergists Triceps = [Chest] \<and>
   length (synergists m) \<le> 2 \<and> distinct (synergists m) \<and> m \<notin> set (synergists m) \<and>
   Back \<in> set (synergists Core) \<and> Core \<notin> set (synergists Back) \<and>
   (\<forall>n \<in> set (synergists (muscle s)).
      applySession s f n = Some (js_min (Fin 100) (js_add (rd f n) (session_spill s))) \<and>
      (\<forall>g \<in> set (synergists n).
         g \<noteq> muscle s \<longrightarrow> g \<notin> set (synergists (muscle s)) \<longrightarrow> applySession s f g = f g))"
  by (simp add: applySession_apply synergists_length synergists_distinct synergists_irrefl)
    (simp add: synergists_def)

theorem synergist_table_witness:
  "applySession (chest45\<lparr>muscle := Triceps\<rparr>) initFatigue Shoulders = Some (Fin 0) \<and>
   applySession (chest45\<lparr>muscle := Triceps\<rparr>) initFatigue Chest = Some (Fin 10) \<and>
   Shoulders \<in> set (synergists Chest) \<and> Shoulders \<notin> set (synergists Triceps)"
proof -
  let ?s = "chest45\<lparr>muscle := Triceps\<rparr>"
  have c: "Chest \<in> set (synergists (muscle ?s))" by (simp add: synergists_def)
  have s: "Shoulders \<in> set (synergists Chest)" "Shoulders \<noteq> muscle ?s"
    "Shoulders \<notin> set (synergists (muscle ?s))"
    by (simp_all add: synergists_def)
  have p: "session_spill ?s = Fin 10" by (simp add: scenario_spill)
  from synergist_table [of _ ?s initFatigue] c
  have "applySession ?s initFatigue Chest =
      Some (js_min (Fin 100) (js_add (rd initFatigue Chest) (session_spill ?s)))"
    and "\<forall>g \<in> set (synergists Chest). g \<noteq> muscle ?s \<longrightarrow>
      g \<notin> set (synergists (muscle ?s)) \<longrightarrow> applySession ?s initFatigue g = initFatigue g"
    by blast+
  then show ?thesis using s p by (simp add: rd_def initFatigue_apply fl_10)
qed

text \<open>
  C8. Removing an identifier can remove more than one entry: in a log where two entries
  carry the same identifier, both go.
\<close>

theorem remove_counterexample:
  "length (history (addSession ''s1'' ''2025-01-02T00:00:00.000Z''
      (addSession ''s1'' ''2025-01-01T00:00:00.000Z'' initialState))) = 2 \<and>
   history (removeSession ''s1'' (addSession ''s1'' ''2025-01-02T00:00:00.000Z''
      (addSession ''s1'' ''2025-01-01T00:00:00.000Z'' initialState))) = []"
  by (simp add: removeSession_def addSession_def Let_def mkSession_def initialState_def)

text \<open>
  C8, as the code has it. Removing an identifier from the log removes every entry that
  carries it and no other entry, so as many entries go as carry it: at most one in a log
  whose identifiers are unique. An identifier that is not in the log leaves the state as it
  is, and a second removal of the same identifier changes nothing.
\<close>

theorem remove_all_matching:
  "removeSession i (removeSession i st) = removeSession i st \<and>
   (i \<notin> set (map id' (history st)) \<longrightarrow> removeSession i st = st) \<and>
   length (history st) =
     length (history (removeSession i st)) + length (filter (\<lambda>h. id' h = i) (history st)) \<and>
   (\<forall>h \<in> set (history st). h \<in> set (history (removeSession i st)) \<longleftrightarrow> id' h \<noteq> i) \<and>
   set (history (removeSession i st)) \<subseteq> set (history st) \<and>
   (distinct (map id' (history st)) \<longrightarrow>
      length (history st) \<le> Suc (length (history (removeSession i st))))"
proof -
  have a: "i \<notin> set (map id' hs) \<Longrightarrow> filter (\<lambda>h. id' h \<noteq> i) hs = hs"
    for hs :: "Session list"
    by (induction hs) auto
  have b: "distinct (map id' hs) \<Longrightarrow> length hs \<le> Suc (length (filter (\<lambda>h. id' h \<noteq> i) hs))"
    for hs :: "Session list"
  proof (induction hs)
    case Nil
    then show ?case by simp
  next
    case (Cons h hs)
    then show ?case by (cases "id' h = i") (simp_all add: a)
  qed
  have c: "length hs =
      length (filter (\<lambda>h. id' h \<noteq> i) hs) + length (filter (\<lambda>h. id' h = i) hs)"
    for hs :: "Session list"
    by (induction hs) auto
  show ?thesis
    using a [of "history st"] b [of "history st"] c [of "history st"]
    by (auto simp: removeSession_def)
qed

theorem remove_all_matching_witness:
  "distinct (map id' (history (addSession ''s2'' ''2025-01-02T00:00:00.000Z''
      (addSession ''s1'' ''2025-01-01T00:00:00.000Z'' initialState)))) \<and>
   length (history (addSession ''s2'' ''2025-01-02T00:00:00.000Z''
      (addSession ''s1'' ''2025-01-01T00:00:00.000Z'' initialState))) \<le>
     Suc (length (history (removeSession ''s1'' (addSession ''s2'' ''2025-01-02T00:00:00.000Z''
      (addSession ''s1'' ''2025-01-01T00:00:00.000Z'' initialState))))) \<and>
   map id' (history (removeSession ''s1'' (addSession ''s2'' ''2025-01-02T00:00:00.000Z''
      (addSession ''s1'' ''2025-01-01T00:00:00.000Z'' initialState)))) = [''s2''] \<and>
   removeSession ''s3'' (addSession ''s1'' ''2025-01-01T00:00:00.000Z'' initialState) =
     addSession ''s1'' ''2025-01-01T00:00:00.000Z'' initialState"
proof -
  let ?a = "addSession ''s1'' ''2025-01-01T00:00:00.000Z'' initialState"
  let ?b = "addSession ''s2'' ''2025-01-02T00:00:00.000Z'' ?a"
  have d: "distinct (map id' (history ?b))"
    by (simp add: addSession_def Let_def mkSession_def initialState_def)
  have n: "''s3'' \<notin> set (map id' (history ?a))"
    by (simp add: addSession_def Let_def mkSession_def initialState_def)
  have "length (history ?b) \<le> Suc (length (history (removeSession ''s1'' ?b)))"
    using d remove_all_matching [of "''s1''" ?b] by blast
  moreover have "removeSession ''s3'' ?a = ?a"
    using n remove_all_matching [of "''s3''" ?a] by blast
  moreover have "map id' (history (removeSession ''s1'' ?b)) = [''s2'']"
    by (simp add: removeSession_def addSession_def Let_def mkSession_def initialState_def)
  ultimately show ?thesis using d by simp
qed

text \<open>
  C9. Deleting a session touches the log only: every score is what it was, and the
  sessions with another identifier stay, unchanged and in their order. In particular the
  delta of the deleted session is not taken back: logging a session and deleting it leaves
  the fatigue the logging produced.
\<close>

theorem remove_keeps_fatigue:
  "fatigue (removeSession i st) = fatigue st \<and>
   history (removeSession i st) = filter (\<lambda>h. id' h \<noteq> i) (history st) \<and>
   filter (\<lambda>h. id' h \<noteq> i) (history (removeSession i st)) = filter (\<lambda>h. id' h \<noteq> i) (history st) \<and>
   fatigue (removeSession uid (addSession uid now st)) =
     applySession (mkSession uid now st) (fatigue st) \<and>
   fatigue (removeSession ''s1'' (addSession ''s1'' ''2025-01-01T00:00:00.000Z'' initialState)) Chest
     \<noteq> fatigue initialState Chest"
proof -
  have "mkSession ''s1'' ''2025-01-01T00:00:00.000Z'' initialState = chest45"
    by (rule scenario_form)
  then have "fatigue (removeSession ''s1'' (addSession ''s1'' ''2025-01-01T00:00:00.000Z'' initialState))
      Chest = Some (Fin (6931321301499903 / 70368744177664))"
    by (simp add: removeSession_def addSession_def Let_def scenario_target)
      (simp add: initialState_def scenario_target)
  then show ?thesis
    by (simp add: removeSession_def addSession_def Let_def)
      (simp add: initialState_def initFatigue_apply)
qed

text \<open>
  C10. A session changes at most the score of its target and of the synergists the table
  lists for the target: every other group keeps the entry it had, present or not.
\<close>

theorem session_frame:
  assumes "g \<noteq> muscle s" and "g \<notin> set (synergists (muscle s))"
  shows "applySession s f g = f g"
  using assms by (simp add: applySession_apply)

theorem session_frame_witness:
  "applySession chest45 (initFatigue(Back \<mapsto> Fin 40)) Back = Some (Fin 40) \<and>
   applySession chest45 (initFatigue(Back \<mapsto> Fin 40)) Quads = Some (Fin 0)"
proof -
  have "Back \<noteq> muscle chest45" "Back \<notin> set (synergists (muscle chest45))"
    "Quads \<noteq> muscle chest45" "Quads \<notin> set (synergists (muscle chest45))"
    by (simp_all add: synergists_def)
  then show ?thesis
    using session_frame [of Back chest45 "initFatigue(Back \<mapsto> Fin 40)"]
      session_frame [of Quads chest45 "initFatigue(Back \<mapsto> Fin 40)"]
    by (simp add: initFatigue_apply)
qed

end
